theory Spec2Isabelle
  imports Main "HOL-Library.Sublist"
begin

section \<open>Data model of \<open>packages/skin-database/api/app.ts\<close>\<close>

text \<open>
  JavaScript strings are modelled as \<^typ>\<open>string\<close>. The strings the origin gate sees are
  HTTP header values, which Node decodes one byte per character, so one \<^typ>\<open>char\<close> is one
  code unit. Objects with identity (the \<open>UserContext\<close> instance, the \<open>params\<close> and \<open>query\<close>
  objects of a request) are references into the object store, allocated by a counter.
\<close>

type_synonym ref = nat

text \<open>\<open>export type ApiAction\<close> (lines 11-14): a closed tagged union.\<close>

datatype ApiAction =
    REVIEW_REQUESTED string
  | SKIN_UPLOADED string
  | ERROR_PROCESSING_UPLOAD string string

text \<open>A JavaScript \<open>Error\<close> object; \<open>message\<close> reads \<open>err.message\<close>.\<close>

datatype Error = Error (message: string)


section \<open>The origin allow-list (lines 101-117)\<close>

text \<open>
  The three regular expressions of \<open>allowList\<close> use literal characters (some of them
  escaped, \<open>\/\<close> and \<open>\.\<close>) and the wildcard \<open>.\<close> only, without anchors or flags. A regular
  expression of that fragment is a list of atoms.
\<close>

datatype RegexAtom = Lit char | Dot

type_synonym Regex = "RegexAtom list"

text \<open>Without the \<open>s\<close> flag, \<open>.\<close> matches every character but the line terminators.\<close>

fun atom_matches :: "RegexAtom \<Rightarrow> char \<Rightarrow> bool" where
  "atom_matches (Lit c) d = (c = d)"
| "atom_matches Dot d = (d \<noteq> CHR 0x0A \<and> d \<noteq> CHR 0x0D)"

text \<open>The pattern matches a prefix of the string (a match attempt at index 0).\<close>

fun match_here :: "Regex \<Rightarrow> string \<Rightarrow> bool" where
  "match_here [] s = True"
| "match_here (a # as) [] = False"
| "match_here (a # as) (c # cs) = (atom_matches a c \<and> match_here as cs)"

text \<open>
  \<open>regex.test(s)\<close> for a regular expression without the global or sticky flag: the match
  is attempted at every start index of \<open>s\<close> in turn, the end of the string included.
\<close>

fun regex_test :: "Regex \<Rightarrow> string \<Rightarrow> bool" where
  "regex_test regex [] = match_here regex []"
| "regex_test regex (c # cs) = (match_here regex (c # cs) \<or> regex_test regex cs)"

definition lits :: "string \<Rightarrow> Regex" where
  "lits s = map Lit s"

definition allowList :: "Regex list" where
  "allowList =
    [ lits ''https://skins.webamp.org'',
      lits ''http://localhost:3000'',
      lits ''netlify'' @ [Dot] @ lits ''app'' ]"

text \<open>
  The argument of the \<open>origin\<close> callback is \<open>string | undefined\<close>: \<open>None\<close> is \<open>undefined\<close>.
  \<open>truthy\<close> is JavaScript's truthiness of such a value (the empty string is falsy), and
  \<open>toStr\<close> the string conversion that \<open>regex.test\<close> and the template literal apply.
\<close>

fun truthy :: "string option \<Rightarrow> bool" where
  "truthy None = False"
| "truthy (Some s) = (s \<noteq> [])"

fun toStr :: "string option \<Rightarrow> string" where
  "toStr None = ''undefined''"
| "toStr (Some s) = s"

text \<open>The two ways the callback is called: \<open>callback(null, true)\<close> and \<open>callback(new Error(...))\<close>.\<close>

datatype Decision = ALLOW | DENY Error

definition denial_message :: "string \<Rightarrow> string" where
  "denial_message s = ''Request from origin '' @ [CHR 0x22] @ s @ [CHR 0x22] @ '' not allowed by CORS.''"

text \<open>\<open>rules.some((regex) => regex.test(s))\<close>.\<close>

definition some_rule_matches :: "Regex list \<Rightarrow> string \<Rightarrow> bool" where
  "some_rule_matches rules s = list_ex (\<lambda>regex. regex_test regex s) rules"

text \<open>\<open>corsOptions.origin\<close> (lines 108-116), with the allow-list as a parameter.\<close>

definition origin_gate :: "Regex list \<Rightarrow> string option \<Rightarrow> Decision" where
  "origin_gate rules origin =
     (if \<not> truthy origin \<or> some_rule_matches rules (toStr origin)
      then ALLOW
      else DENY (Error (denial_message (toStr origin))))"

definition corsOptions_origin :: "string option \<Rightarrow> Decision" where
  "corsOptions_origin = origin_gate allowList"

text \<open>\<open>s\<close> occurs in \<open>t\<close> verbatim, as a contiguous run of characters.\<close>

definition contains :: "string \<Rightarrow> string \<Rightarrow> bool" where
  "contains t s = (\<exists>pre post. t = pre @ s @ post)"

text \<open>
  The reading of the specification's "matches the full origin string": the pattern
  consumes the string from its first character to its last.
\<close>

fun full_match :: "Regex \<Rightarrow> string \<Rightarrow> bool" where
  "full_match [] s = (s = [])"
| "full_match (a # as) [] = False"
| "full_match (a # as) (c # cs) = (atom_matches a c \<and> full_match as cs)"

definition some_rule_matches_fully :: "Regex list \<Rightarrow> string \<Rightarrow> bool" where
  "some_rule_matches_fully rules s = list_ex (\<lambda>regex. full_match regex s) rules"


section \<open>The sitemap (lines 95-99)\<close>

text \<open>One row of \<open>Skins.getAllClassicSkins()\<close>, destructured as \<open>{ md5, fileName }\<close>.\<close>

record Skin =
  md5 :: string
  fileName :: string

definition skinUrl :: "Skin \<Rightarrow> string" where
  "skinUrl s = ''skin/'' @ md5 s @ ''/'' @ fileName s"

text \<open>
  \<open>getSitemapUrls\<close> awaits the data layer; the argument is what the awaited promise
  settles to, a rejection being \<open>Inl\<close>. The rejection leaves the function as it came.
\<close>

definition getSitemapUrls :: "Error + Skin list \<Rightarrow> Error + string list" where
  "getSitemapUrls fetched =
     (case fetched of
        Inl err \<Rightarrow> Inl err
      | Inr md5s \<Rightarrow> (let skinUrls = map skinUrl md5s in Inr ([''/about'', ''/'', ''/upload''] @ skinUrls)))"


section \<open>The upload limit (lines 72-73)\<close>

record Limits =
  fileSize :: nat

definition limits :: Limits where
  "limits = \<lparr> fileSize = 50 * 1024 * 1024 \<rparr>"


section \<open>Requests, responses and the process state\<close>

text \<open>The object literal \<open>{ url: req.url, params: req.params, query: req.query }\<close> of line 55.\<close>

datatype LogContext = LogContext (lc_url: string) (lc_params: ref) (lc_query: ref)

datatype Level = Info | Err

text \<open>
  \<open>EventHandler\<close> (line 16). The subscriber is code from outside: it acts on a state of
  its own, of type \<open>'s\<close>, and it may throw (the first component). TypeScript's
  \<open>ctx: UserContext\<close> does not rule out \<open>undefined\<close> at run time, hence the option.
\<close>

type_synonym 's EventHandler = "ApiAction \<Rightarrow> ref option \<Rightarrow> 's \<Rightarrow> Error option \<times> 's"

text \<open>
  The fields of the Express request that \<open>app.ts\<close> reads or writes. A field that holds a
  closure holds what the closure has captured: \<open>notify\<close> the \<open>eventHandler\<close> of \<open>createApp\<close>
  (the closure reads \<open>req.ctx\<close> through the request itself, when it is called), \<open>log\<close> and
  \<open>logError\<close> the constant \<open>context\<close>. \<open>None\<close> is \<open>undefined\<close>.
\<close>

record 's Request =
  httpMethod :: string
  url :: string
  params :: ref
  query :: ref
  origin :: "string option"
  ctx :: "ref option"
  notify :: "'s EventHandler option option"
  log :: "LogContext option"
  logError :: "LogContext option"

text \<open>A request as Express hands it to the first layer: nothing attached yet.\<close>

definition incoming :: "string \<Rightarrow> string \<Rightarrow> ref \<Rightarrow> ref \<Rightarrow> string option \<Rightarrow> 's Request" where
  "incoming m u p q org =
     \<lparr> httpMethod = m, url = u, params = p, query = q, origin = org,
       ctx = None, notify = None, log = None, logError = None \<rparr>"

text \<open>The object handed to \<open>res.json\<close> on line 89.\<close>

record ErrorResponse =
  errorId :: "string option"
  message :: string

datatype Body =
    JsonBody ErrorResponse
  | NoContent
  | XmlBody string
  | OtherBody string
  | NotFoundPage
  | ErrorPage Error

text \<open>
  The response: the property \<open>res.statusCode\<close>, \<open>res.sentry\<close>, and what the client has been
  sent, the status and the body, once the response is ended. A response is ended once.
\<close>

record Response =
  statusCode :: nat
  sentry :: "string option"
  sent :: "(nat \<times> Body) option"

text \<open>
  \<open>res.json\<close>, \<open>res.send\<close> and \<open>res.end\<close>: the body goes out with the status the response has
  now. On a response that is ended already they throw, and the client keeps what it was
  sent.
\<close>

definition headers_sent :: Error where
  "headers_sent = Error ''Cannot set headers after they are sent to the client''"

definition res_send :: "Body \<Rightarrow> Response \<Rightarrow> Error + Response" where
  "res_send body res =
     (case sent res of
        None \<Rightarrow> Inr (res\<lparr>sent := Some (statusCode res, body)\<rparr>)
      | Some earlier \<Rightarrow> Inl headers_sent)"

text \<open>
  What all requests of the process share: the allocation counter of the object store,
  the console, the sitemaps that \<open>express-sitemap-xml\<close> has memoised (the paths it serves,
  each with its document), and the state of the code outside this module.
\<close>

record 's World =
  nextRef :: ref
  console :: "(Level \<times> string \<times> LogContext) list"
  sitemaps :: "(string \<times> string) list option"
  outside :: 's


section \<open>The middleware of \<open>createApp\<close> (lines 36-59)\<close>

text \<open>
  Modelled from the spec: the class \<open>UserContext\<close> of \<open>../data/UserContext\<close> is not part of
  this file. The specification takes the context as opaque to this module beyond
  existing and being passed along, so \<open>new UserContext()\<close> is the allocation of the next
  free reference of the object store, and it returns.

  Lines 37-41: \<open>req.ctx = new UserContext()\<close>.
\<close>

definition addUserContext :: "'s Request \<Rightarrow> 's World \<Rightarrow> 's Request \<times> 's World" where
  "addUserContext req w = (req\<lparr>ctx := Some (nextRef w)\<rparr>, w\<lparr>nextRef := Suc (nextRef w)\<rparr>)"

text \<open>Lines 44-51: \<open>req.notify\<close> is assigned a closure over \<open>eventHandler\<close> and \<open>req\<close>.\<close>

definition attachEventHandler :: "'s EventHandler option \<Rightarrow> 's Request \<Rightarrow> 's Request" where
  "attachEventHandler eventHandler req = req\<lparr>notify := Some eventHandler\<rparr>"

text \<open>Lines 54-59: \<open>context\<close> is built, then captured by both closures.\<close>

definition attachLogger :: "'s Request \<Rightarrow> 's Request" where
  "attachLogger req =
     (let context = LogContext (url req) (params req) (query req)
      in req\<lparr>log := Some context, logError := Some context\<rparr>)"

text \<open>
  Calling \<open>req.notify(action)\<close>, lines 45-49. The result is the error thrown, if any, and
  the world afterwards. Calling a field that is \<open>undefined\<close> is a \<open>TypeError\<close>.
\<close>

definition not_a_function :: "string \<Rightarrow> Error" where
  "not_a_function f = Error (f @ '' is not a function'')"

definition req_notify :: "'s Request \<Rightarrow> ApiAction \<Rightarrow> 's World \<Rightarrow> Error option \<times> 's World" where
  "req_notify req action w =
     (case notify req of
        None \<Rightarrow> (Some (not_a_function ''req.notify''), w)
      | Some eventHandler \<Rightarrow>
          (case eventHandler of
             None \<Rightarrow> (None, w)
           | Some h \<Rightarrow>
               (let (thrown, s) = h action (ctx req) (outside w)
                in (thrown, w\<lparr>outside := s\<rparr>))))"

text \<open>Calling \<open>req.log(message)\<close> and \<open>req.logError(message)\<close>, lines 56 and 57.\<close>

definition req_log :: "'s Request \<Rightarrow> string \<Rightarrow> 's World \<Rightarrow> Error option \<times> 's World" where
  "req_log req msg w =
     (case log req of
        None \<Rightarrow> (Some (not_a_function ''req.log''), w)
      | Some context \<Rightarrow> (None, w\<lparr>console := console w @ [(Info, msg, context)]\<rparr>))"

definition req_logError :: "'s Request \<Rightarrow> string \<Rightarrow> 's World \<Rightarrow> Error option \<times> 's World" where
  "req_logError req msg w =
     (case logError req of
        None \<Rightarrow> (Some (not_a_function ''req.logError''), w)
      | Some context \<Rightarrow> (None, w\<lparr>console := console w @ [(Err, msg, context)]\<rparr>))"

text \<open>
  The metadata of a request as it stands: what a snapshot taken now would hold.
\<close>

definition metadata_now :: "'s Request \<Rightarrow> LogContext" where
  "metadata_now req = LogContext (url req) (params req) (query req)"

text \<open>
  \<open>onError\<close>, lines 87-90: the status is assigned, then \<open>res.json\<close> is called. The result is
  the error that \<open>res.json\<close> throws, if any, and the response afterwards.
\<close>

definition onError :: "Error \<Rightarrow> Response \<Rightarrow> Error option \<times> Response" where
  "onError err res =
     (let res1 = res\<lparr>statusCode := 500\<rparr>
      in case res_send (JsonBody \<lparr> errorId = sentry res1, message = Error.message err \<rparr>) res1 of
           Inr res2 \<Rightarrow> (None, res2)
         | Inl thrown \<Rightarrow> (Some thrown, res1))"


section \<open>The pipeline built by \<open>createApp\<close> (lines 30-93)\<close>

text \<open>
  One constructor for each \<open>app.use\<close> and \<open>app.options\<close> of \<open>createApp\<close>, in the words of
  the source.
\<close>

datatype Layer =
    SentryRequestHandler
  | AddUserContext
  | AttachEventHandler
  | AttachLogger
  | Cors
  | OptionsCors
  | BodyParserJson
  | FileUpload Limits
  | ExpressSitemapXml string
  | Router
  | SentryErrorHandler
  | OnError

record 's App =
  stack :: "Layer list"
  json_spaces :: nat
  subscriber :: "'s EventHandler option"

text \<open>
  \<open>createApp(eventHandler)\<close>. The first argument is the truthiness of the imported
  \<open>Sentry\<close> module, tested on lines 32 and 82.
\<close>

definition createApp :: "bool \<Rightarrow> 's EventHandler option \<Rightarrow> 's App" where
  "createApp Sentry eventHandler =
     \<lparr> stack =
         (if Sentry then [SentryRequestHandler] else []) @
         [AddUserContext, AttachEventHandler, AttachLogger, Cors, OptionsCors,
          BodyParserJson, FileUpload limits, ExpressSitemapXml ''https://skins.webamp.org'',
          Router] @
         (if Sentry then [SentryErrorHandler] else []) @
         [OnError],
       json_spaces = 2,
       subscriber = eventHandler \<rparr>"


subsection \<open>Express and the collaborators\<close>

text \<open>
  Express is Express 4. How a layer leaves: by \<open>next()\<close>; by \<open>next(err)\<close> or a throw while
  Express is calling it; by ending the response; or by none of these, which leaves the
  request hanging. The last is what becomes of an \<open>async\<close> middleware whose promise
  rejects: Express 4 does not look at the promise.
\<close>

datatype Outcome = Next | NextErr Error | End | Hang

type_synonym 's Handler =
  "'s Request \<Rightarrow> Response \<Rightarrow> 's World \<Rightarrow> Outcome \<times> 's Request \<times> Response \<times> 's World"

text \<open>
  The code this module imports and does not define: the body parser, the upload handler,
  the router of the application, the data layer read by the sitemap, the two functions
  of \<open>express-sitemap-xml\<close> that say which URLs are sitemap URLs and build the sitemaps
  from the list and the base, and Sentry's report of an error, which gives the event
  identifier if it took the error.
\<close>

record 's Collaborators =
  bodyParser_json :: "'s Handler"
  fileUpload :: "Limits \<Rightarrow> 's Handler"
  router :: "'s Handler"
  getAllClassicSkins :: "'s \<Rightarrow> Error + Skin list"
  isSitemapUrl :: "string \<Rightarrow> bool"
  buildSitemaps :: "string list \<Rightarrow> string \<Rightarrow> (string \<times> string) list"
  captureException :: "Error \<Rightarrow> string option"

text \<open>
  The \<open>cors\<close> package with \<open>corsOptions\<close>: a denial goes to \<open>next(err)\<close>; an allowed
  pre-flight request is answered with 204; any other allowed request goes on.
\<close>

definition cors :: "'s Handler" where
  "cors req res w =
     (case corsOptions_origin (origin req) of
        DENY err \<Rightarrow> (NextErr err, req, res, w)
      | ALLOW \<Rightarrow>
          if httpMethod req = ''OPTIONS''
          then (case res_send NoContent (res\<lparr>statusCode := 204\<rparr>) of
                  Inr res' \<Rightarrow> (End, req, res', w)
                | Inl thrown \<Rightarrow> (NextErr thrown, req, res, w))
          else (Next, req, res, w))"

text \<open>
  \<open>loadSitemaps\<close> of \<open>express-sitemap-xml\<close>, memoised: the sitemaps loaded before are taken
  as they are; otherwise \<open>getSitemapUrls\<close> is awaited, the sitemaps are built from its list
  and kept. A rejection is not kept.
\<close>

definition loadSitemaps ::
  "'s Collaborators \<Rightarrow> string \<Rightarrow> 's World \<Rightarrow> (Error + (string \<times> string) list) \<times> 's World" where
  "loadSitemaps co base w =
     (case sitemaps w of
        Some built \<Rightarrow> (Inr built, w)
      | None \<Rightarrow>
          (case getSitemapUrls (getAllClassicSkins co (outside w)) of
             Inl err \<Rightarrow> (Inl err, w)
           | Inr urls \<Rightarrow>
               (let built = buildSitemaps co urls base
                in (Inr built, w\<lparr>sitemaps := Some built\<rparr>))))"

text \<open>
  \<open>expressSitemapXml(getSitemapUrls, base)\<close> is an \<open>async\<close> middleware without a \<open>catch\<close>. For
  a sitemap URL it awaits the sitemaps and answers with the document of that URL, or
  goes on if there is none; for any other URL it goes on. When the fetch is rejected, or
  the response cannot be written, its promise rejects: \<open>next\<close> is not called and nothing
  is sent.
\<close>

definition expressSitemapXml :: "'s Collaborators \<Rightarrow> string \<Rightarrow> 's Handler" where
  "expressSitemapXml co base req res w =
     (if isSitemapUrl co (url req)
      then (case loadSitemaps co base w of
              (Inl err, w') \<Rightarrow> (Hang, req, res, w')
            | (Inr built, w') \<Rightarrow>
                (case map_of built (url req) of
                   None \<Rightarrow> (Next, req, res, w')
                 | Some document \<Rightarrow>
                     (case res_send (XmlBody document) (res\<lparr>statusCode := 200\<rparr>) of
                        Inr res' \<Rightarrow> (End, req, res', w')
                      | Inl thrown \<Rightarrow> (Hang, req, res, w'))))
      else (Next, req, res, w))"

text \<open>
  Sentry's error handler stores the event identifier in \<open>res.sentry\<close> when it reports the
  error, and passes the same error on.
\<close>

definition sentryErrorHandler :: "'s Collaborators \<Rightarrow> Error \<Rightarrow> 's Handler" where
  "sentryErrorHandler co err req res w =
     (NextErr err, req,
      (case captureException co err of None \<Rightarrow> res | Some eventId \<Rightarrow> res\<lparr>sentry := Some eventId\<rparr>),
      w)"

text \<open>A function of four parameters is an error handler to Express.\<close>

fun is_error_handler :: "Layer \<Rightarrow> bool" where
  "is_error_handler SentryErrorHandler = True"
| "is_error_handler OnError = True"
| "is_error_handler _ = False"

text \<open>
  Whether Express calls a layer: error handlers while an error is pending and only then;
  \<open>app.options\<close> for the method OPTIONS only.
\<close>

definition handles :: "Layer \<Rightarrow> Error option \<Rightarrow> 's Request \<Rightarrow> bool" where
  "handles l pending req =
     (case pending of
        Some err \<Rightarrow> is_error_handler l
      | None \<Rightarrow> \<not> is_error_handler l \<and> (l \<noteq> OptionsCors \<or> httpMethod req = ''OPTIONS''))"

text \<open>What each layer does when Express calls it.\<close>

definition run_layer ::
  "'s Collaborators \<Rightarrow> 's EventHandler option \<Rightarrow> Layer \<Rightarrow> Error option \<Rightarrow> 's Handler" where
  "run_layer co eventHandler l pending req res w =
     (case l of
        SentryRequestHandler \<Rightarrow> (Next, req, res, w)
      | AddUserContext \<Rightarrow> (let (req', w') = addUserContext req w in (Next, req', res, w'))
      | AttachEventHandler \<Rightarrow> (Next, attachEventHandler eventHandler req, res, w)
      | AttachLogger \<Rightarrow> (Next, attachLogger req, res, w)
      | Cors \<Rightarrow> cors req res w
      | OptionsCors \<Rightarrow> cors req res w
      | BodyParserJson \<Rightarrow> bodyParser_json co req res w
      | FileUpload lim \<Rightarrow> fileUpload co lim req res w
      | ExpressSitemapXml base \<Rightarrow> expressSitemapXml co base req res w
      | Router \<Rightarrow> router co req res w
      | SentryErrorHandler \<Rightarrow>
          (case pending of
             Some err \<Rightarrow> sentryErrorHandler co err req res w
           | None \<Rightarrow> (Next, req, res, w))
      | OnError \<Rightarrow>
          (case pending of
             Some err \<Rightarrow>
               (case onError err res of
                  (None, res') \<Rightarrow> (End, req, res', w)
                | (Some thrown, res') \<Rightarrow> (NextErr thrown, req, res', w))
           | None \<Rightarrow> (Next, req, res, w)))"

text \<open>
  Express's answer when the stack is exhausted: its own page for 404 or for the error,
  unless the response is ended already, which it leaves as it is.
\<close>

definition finalhandler :: "Error option \<Rightarrow> Response \<Rightarrow> Response" where
  "finalhandler pending res =
     (case sent res of
        Some earlier \<Rightarrow> res
      | None \<Rightarrow>
          (case pending of
             None \<Rightarrow> res\<lparr>statusCode := 404, sent := Some (404, NotFoundPage)\<rparr>
           | Some err \<Rightarrow> res\<lparr>statusCode := 500, sent := Some (500, ErrorPage err)\<rparr>))"

text \<open>
  One request through a stack. The result is the request, the response and the world
  at the end, and the visits: the layers that ran, in order, each with the \<open>req.ctx\<close> it
  found and the way it left.
\<close>

type_synonym Visit = "Layer \<times> ref option \<times> Outcome"

fun dispatch ::
  "'s Collaborators \<Rightarrow> 's EventHandler option \<Rightarrow> Layer list \<Rightarrow> Error option \<Rightarrow>
   's Request \<Rightarrow> Response \<Rightarrow> 's World \<Rightarrow>
   ('s Request \<times> Response \<times> 's World) \<times> Visit list" where
  "dispatch co eh [] pending req res w = ((req, finalhandler pending res, w), [])"
| "dispatch co eh (l # ls) pending req res w =
     (if handles l pending req then
        (case run_layer co eh l pending req res w of
           (Next, req', res', w') \<Rightarrow>
             (let (fin, tr) = dispatch co eh ls None req' res' w'
              in (fin, (l, ctx req, Next) # tr))
         | (NextErr err, req', res', w') \<Rightarrow>
             (let (fin, tr) = dispatch co eh ls (Some err) req' res' w'
              in (fin, (l, ctx req, NextErr err) # tr))
         | (End, req', res', w') \<Rightarrow> ((req', res', w'), [(l, ctx req, End)])
         | (Hang, req', res', w') \<Rightarrow> ((req', res', w'), [(l, ctx req, Hang)]))
      else dispatch co eh ls pending req res w)"

definition fresh_response :: Response where
  "fresh_response = \<lparr> statusCode = 200, sentry = None, sent = None \<rparr>"

definition handle ::
  "'s Collaborators \<Rightarrow> 's App \<Rightarrow> 's Request \<Rightarrow> 's World \<Rightarrow>
   ('s Request \<times> Response \<times> 's World) \<times> Visit list" where
  "handle co app req w = dispatch co (subscriber app) (stack app) None req fresh_response w"


text \<open>The parts of a run.\<close>

definition final_request ::
  "('s Request \<times> Response \<times> 's World) \<times> Visit list \<Rightarrow> 's Request" where
  "final_request run = fst (fst run)"

definition response :: "('s Request \<times> Response \<times> 's World) \<times> Visit list \<Rightarrow> Response" where
  "response run = fst (snd (fst run))"

definition final_world ::
  "('s Request \<times> Response \<times> 's World) \<times> Visit list \<Rightarrow> 's World" where
  "final_world run = snd (snd (fst run))"

definition visits :: "('s Request \<times> Response \<times> 's World) \<times> Visit list \<Rightarrow> Visit list" where
  "visits run = snd run"

text \<open>
  The stack of an application in two parts: the layers ahead of the origin gate, and
  the layers from the origin gate on. \<open>prepared\<close> is the request and the world as the
  first part leaves them, which is what the second part is handed.
\<close>

definition ahead_of_gate :: "'s App \<Rightarrow> Layer list" where
  "ahead_of_gate app = takeWhile (\<lambda>l. l \<noteq> Cors) (stack app)"

definition from_gate_on :: "'s App \<Rightarrow> Layer list" where
  "from_gate_on app = dropWhile (\<lambda>l. l \<noteq> Cors) (stack app)"

definition prepared ::
  "'s Collaborators \<Rightarrow> 's App \<Rightarrow> 's Request \<Rightarrow> 's World \<Rightarrow> 's Request \<times> 's World" where
  "prepared co app req w =
     (let run = dispatch co (subscriber app) (ahead_of_gate app) None req fresh_response w
      in (final_request run, final_world run))"


subsection \<open>Requests in flight\<close>

text \<open>
  Express serves many requests on one thread; they interleave wherever a layer waits.
  A request in flight is its request and response objects, the layers still ahead of it,
  the error it carries, and whether it has come to its end (answered, or left hanging).
  \<open>advance\<close> takes it through the next layer, as \<open>dispatch\<close> does.
\<close>

record 's Flight =
  fl_req :: "'s Request"
  fl_res :: Response
  fl_rest :: "Layer list"
  fl_pending :: "Error option"
  fl_done :: bool

definition advance ::
  "'s Collaborators \<Rightarrow> 's EventHandler option \<Rightarrow> 's Flight \<Rightarrow> 's World \<Rightarrow> 's Flight \<times> 's World" where
  "advance co eh fl w =
     (if fl_done fl then (fl, w)
      else
        (case fl_rest fl of
           [] \<Rightarrow> (fl\<lparr>fl_res := finalhandler (fl_pending fl) (fl_res fl), fl_done := True\<rparr>, w)
         | l # ls \<Rightarrow>
             if handles l (fl_pending fl) (fl_req fl) then
               (case run_layer co eh l (fl_pending fl) (fl_req fl) (fl_res fl) w of
                  (Next, req', res', w') \<Rightarrow>
                    (\<lparr>fl_req = req', fl_res = res', fl_rest = ls, fl_pending = None,
                      fl_done = False\<rparr>, w')
                | (NextErr err, req', res', w') \<Rightarrow>
                    (\<lparr>fl_req = req', fl_res = res', fl_rest = ls, fl_pending = Some err,
                      fl_done = False\<rparr>, w')
                | (End, req', res', w') \<Rightarrow>
                    (\<lparr>fl_req = req', fl_res = res', fl_rest = ls, fl_pending = fl_pending fl,
                      fl_done = True\<rparr>, w')
                | (Hang, req', res', w') \<Rightarrow>
                    (\<lparr>fl_req = req', fl_res = res', fl_rest = ls, fl_pending = fl_pending fl,
                      fl_done = True\<rparr>, w'))
             else (fl\<lparr>fl_rest := ls\<rparr>, w)))"

definition arriving :: "'s App \<Rightarrow> 's Request \<Rightarrow> 's Flight" where
  "arriving app req =
     \<lparr>fl_req = req, fl_res = fresh_response, fl_rest = stack app, fl_pending = None,
      fl_done = False\<rparr>"

record 's Server =
  world :: "'s World"
  flights :: "'s Flight list"

text \<open>
  A step of the server: a request arrives, or one of the requests in flight, any of them,
  goes through its next layer.
\<close>

inductive server_step :: "'s Collaborators \<Rightarrow> 's App \<Rightarrow> 's Server \<Rightarrow> 's Server \<Rightarrow> bool"
  for co :: "'s Collaborators" and app :: "'s App" where
  arrive:
    "server_step co app sv (sv\<lparr>flights := flights sv @ [arriving app (incoming m u p q org)]\<rparr>)"
| proceed:
    "i < length (flights sv) \<Longrightarrow>
     advance co (subscriber app) (flights sv ! i) (world sv) = (fl', w') \<Longrightarrow>
     server_step co app sv \<lparr>world = w', flights = (flights sv)[i := fl']\<rparr>"

inductive reachable :: "'s Collaborators \<Rightarrow> 's App \<Rightarrow> 's Server \<Rightarrow> bool"
  for co :: "'s Collaborators" and app :: "'s App" where
  start: "flights sv = [] \<Longrightarrow> reachable co app sv"
| later: "reachable co app sv \<Longrightarrow> server_step co app sv sv' \<Longrightarrow> reachable co app sv'"

text \<open>
  What the properties of the request context ask of the collaborators: a handler
  leaves \<open>req.ctx\<close> as it found it, and the object store never gives a reference twice.
\<close>

definition keeps_context :: "'s Handler \<Rightarrow> bool" where
  "keeps_context h =
     (\<forall>req res w. case h req res w of
        (out, req', res', w') \<Rightarrow> ctx req' = ctx req \<and> nextRef w \<le> nextRef w')"

definition well_behaved :: "'s Collaborators \<Rightarrow> bool" where
  "well_behaved co =
     (keeps_context (bodyParser_json co) \<and> (\<forall>lim. keeps_context (fileUpload co lim)) \<and>
      keeps_context (router co))"




text \<open>The position of a layer in a stack, to compare the places of two layers.\<close>

fun position :: "Layer \<Rightarrow> Layer list \<Rightarrow> nat option" where
  "position x [] = None"
| "position x (y # ys) = (if x = y then Some 0 else map_option Suc (position x ys))"

definition before :: "Layer \<Rightarrow> Layer \<Rightarrow> Layer list \<Rightarrow> bool" where
  "before a b ls =
     (case position a ls of
        None \<Rightarrow> False
      | Some i \<Rightarrow> (case position b ls of None \<Rightarrow> False | Some j \<Rightarrow> i < j))"



text \<open>
  The \<open>req.ctx\<close> of the \<open>i\<close>-th request in flight, and the invariant of the server: a
  context in use was allocated before now, and no other request in flight holds it.
\<close>

definition ctx_of :: "'s Server \<Rightarrow> nat \<Rightarrow> ref option" where
  "ctx_of sv i = ctx (fl_req (flights sv ! i))"

definition contexts_apart :: "'s Server \<Rightarrow> bool" where
  "contexts_apart sv =
     (\<forall>i<length (flights sv). \<forall>r. ctx_of sv i = Some r \<longrightarrow>
        r < nextRef (world sv) \<and>
        (\<forall>j<length (flights sv). j \<noteq> i \<longrightarrow> ctx_of sv j \<noteq> Some r))"


section \<open>Sample collaborators\<close>

text \<open>
  Collaborators, a subscriber and a world on which the examples run the pipeline: a
  handler that goes on, a handler that throws, a subscriber that records its calls.
\<close>

definition passing :: "'s Handler" where
  "passing req res w = (Next, req, res, w)"

definition throwing :: "Error \<Rightarrow> 's Handler" where
  "throwing err req res w = (NextErr err, req, res, w)"


text \<open>
  A route handler that calls \<open>req.notify(action)\<close> and answers; what the call throws
  leaves the handler.
\<close>

definition notifying :: "ApiAction \<Rightarrow> 's Handler" where
  "notifying action req res w =
     (case req_notify req action w of
        (Some thrown, w') \<Rightarrow> (NextErr thrown, req, res, w')
      | (None, w') \<Rightarrow>
          (case res_send (OtherBody ''ok'') res of
             Inr res' \<Rightarrow> (End, req, res', w')
           | Inl thrown \<Rightarrow> (NextErr thrown, req, res, w')))"

definition sample_collaborators :: "'s Handler \<Rightarrow> Error + Skin list \<Rightarrow> 's Collaborators" where
  "sample_collaborators r skins =
     \<lparr> bodyParser_json = passing, fileUpload = (\<lambda>lim. passing), router = r,
       getAllClassicSkins = (\<lambda>s. skins),
       isSitemapUrl = (\<lambda>u. u = ''/sitemap.xml''),
       buildSitemaps = (\<lambda>urls base. [(''/sitemap.xml'', concat (map (\<lambda>u. base @ u) urls))]),
       captureException = (\<lambda>err. Some ''event-1'') \<rparr>"

definition record_event :: "(ApiAction \<times> ref option) list EventHandler" where
  "record_event action c calls = (None, calls @ [(action, c)])"

definition sample_world :: "'s \<Rightarrow> 's World" where
  "sample_world s = \<lparr> nextRef = 4, console = [], sitemaps = None, outside = s \<rparr>"


text \<open>
  Two requests in flight, each past the layer that gives it its context: the second
  to arrive was the first to go through it.
\<close>

definition two_in_flight :: "unit Server" where
  "two_in_flight =
     \<lparr> world = \<lparr> nextRef = 6, console = [], sitemaps = None, outside = () \<rparr>,
       flights =
         [ \<lparr> fl_req = (incoming ''GET'' ''/a'' 0 1 None)\<lparr>ctx := Some 5\<rparr>,
             fl_res = fresh_response,
             fl_rest = tl (stack (createApp False None :: unit App)),
             fl_pending = None, fl_done = False \<rparr>,
           \<lparr> fl_req = (incoming ''GET'' ''/b'' 2 3 None)\<lparr>ctx := Some 4\<rparr>,
             fl_res = fresh_response,
             fl_rest = tl (stack (createApp False None :: unit App)),
             fl_pending = None, fl_done = False \<rparr> ] \<rparr>"

section \<open>The origin gate\<close>

lemma match_here_iff: "match_here r s \<longleftrightarrow> (\<exists>m post. s = m @ post \<and> full_match r m)"
proof (induction r s rule: match_here.induct)
  case (1 s)
  then show ?case by simp
next
  case (2 a as)
  then show ?case by simp
next
  case (3 a as c cs)
  show ?case
  proof
    assume "match_here (a # as) (c # cs)"
    then have ac: "atom_matches a c" and "match_here as cs" by simp_all
    with 3 obtain m post where "cs = m @ post" "full_match as m" by blast
    with ac have "c # cs = (c # m) @ post \<and> full_match (a # as) (c # m)" by simp
    then show "\<exists>m post. c # cs = m @ post \<and> full_match (a # as) m" by blast
  next
    assume "\<exists>m post. c # cs = m @ post \<and> full_match (a # as) m"
    then obtain m post where mp: "c # cs = m @ post" "full_match (a # as) m" by blast
    then obtain m' where m: "m = c # m'" by (cases m) auto
    with mp have "cs = m' @ post" "atom_matches a c" "full_match as m'" by simp_all
    with 3 show "match_here (a # as) (c # cs)" by auto
  qed
qed

lemma regex_test_iff:
  "regex_test r s \<longleftrightarrow> (\<exists>pre m post. s = pre @ m @ post \<and> full_match r m)"
proof (induction s)
  case Nil
  then show ?case by (simp add: match_here_iff)
next
  case (Cons c cs)
  show ?case
  proof
    assume "regex_test r (c # cs)"
    then consider "match_here r (c # cs)" | "regex_test r cs" by auto
    then show "\<exists>pre m post. c # cs = pre @ m @ post \<and> full_match r m"
    proof cases
      case 1
      then obtain m post where "c # cs = [] @ m @ post \<and> full_match r m"
        by (auto simp: match_here_iff)
      then show ?thesis by blast
    next
      case 2
      with Cons obtain pre m post where "cs = pre @ m @ post" "full_match r m" by blast
      then have "c # cs = (c # pre) @ m @ post \<and> full_match r m" by simp
      then show ?thesis by blast
    qed
  next
    assume "\<exists>pre m post. c # cs = pre @ m @ post \<and> full_match r m"
    then obtain pre m post where h: "c # cs = pre @ m @ post" "full_match r m" by blast
    show "regex_test r (c # cs)"
    proof (cases pre)
      case Nil
      with h have "match_here r (c # cs)" by (auto simp: match_here_iff)
      then show ?thesis by simp
    next
      case (Cons p pre')
      with h have "cs = pre' @ m @ post" by simp
      with h Cons.IH have "regex_test r cs" by blast
      then show ?thesis by simp
    qed
  qed
qed

lemma some_rule_matches_iff: "some_rule_matches R s \<longleftrightarrow> (\<exists>r\<in>set R. regex_test r s)"
  by (simp add: some_rule_matches_def list_ex_iff)

lemma contains_denial_message: "contains (denial_message s) s"
  unfolding contains_def denial_message_def by (metis append.assoc)

text \<open>
  C1, as the code has it. The decision is ALLOW when the origin is absent or the empty
  string (both are falsy to \<open>!origin\<close>), ALLOW when some rule of the allow-list matches
  the origin, and DENY in every other case, with a reason that contains the origin
  verbatim. \<open>https://skins.webamp.org\<close> is allowed, \<open>https://evil.example\<close> is denied with a
  reason that mentions it, and an absent origin is allowed.
\<close>

theorem origin_gate_decision:
  "origin_gate R None = ALLOW \<and>
   origin_gate R (Some []) = ALLOW \<and>
   (some_rule_matches R s \<longrightarrow> origin_gate R (Some s) = ALLOW) \<and>
   (s \<noteq> [] \<and> \<not> some_rule_matches R s \<longrightarrow>
      origin_gate R (Some s) = DENY (Error (denial_message s)) \<and>
      contains (denial_message s) s) \<and>
   corsOptions_origin (Some ''https://skins.webamp.org'') = ALLOW \<and>
   corsOptions_origin (Some ''https://evil.example'') =
     DENY (Error (denial_message ''https://evil.example'')) \<and>
   contains (denial_message ''https://evil.example'') ''https://evil.example'' \<and>
   corsOptions_origin None = ALLOW"
  by (simp add: origin_gate_def corsOptions_origin_def some_rule_matches_def allowList_def
      lits_def contains_denial_message)

theorem origin_gate_decision_witness:
  "some_rule_matches allowList ''https://deploy-preview-7--webamp.netlify.app'' \<and>
   origin_gate allowList (Some ''https://deploy-preview-7--webamp.netlify.app'') = ALLOW \<and>
   ''http://localhost:8080'' \<noteq> [] \<and>
   \<not> some_rule_matches allowList ''http://localhost:8080'' \<and>
   origin_gate allowList (Some ''http://localhost:8080'') =
     DENY (Error (denial_message ''http://localhost:8080'')) \<and>
   contains (denial_message ''http://localhost:8080'') ''http://localhost:8080''"
proof -
  have a: "some_rule_matches allowList ''https://deploy-preview-7--webamp.netlify.app''"
    by (simp add: some_rule_matches_def allowList_def lits_def)
  have b: "\<not> some_rule_matches allowList ''http://localhost:8080''"
    by (simp add: some_rule_matches_def allowList_def lits_def)
  show ?thesis
    using a b
      origin_gate_decision [of allowList "''https://deploy-preview-7--webamp.netlify.app''"]
      origin_gate_decision [of allowList "''http://localhost:8080''"]
    by simp
qed

text \<open>
  C1 as stated fails for the empty origin: it is a declared origin, no rule of the
  allow-list matches it, and the gate allows it.
\<close>

theorem origin_gate_empty_origin_counterexample:
  "\<not> some_rule_matches allowList [] \<and> corsOptions_origin (Some []) = ALLOW"
  by (simp add: origin_gate_def corsOptions_origin_def some_rule_matches_def allowList_def
      lits_def)

text \<open>
  C6, as the code has it. A present origin is allowed exactly when it is empty or some
  rule matches a contiguous part of it: the patterns are not anchored, so an origin
  that holds an allowed pattern inside a longer string is allowed.
\<close>

theorem origin_gate_unanchored:
  "origin_gate R (Some s) = ALLOW \<longleftrightarrow>
     s = [] \<or> (\<exists>r\<in>set R. \<exists>pre m post. s = pre @ m @ post \<and> full_match r m)"
  by (simp add: origin_gate_def some_rule_matches_iff regex_test_iff)

theorem origin_gate_unanchored_witness:
  "origin_gate allowList (Some ''https://skins.webamp.org.evil.example'') = ALLOW \<and>
   (\<exists>r\<in>set allowList. \<exists>pre m post.
      ''https://skins.webamp.org.evil.example'' = pre @ m @ post \<and> full_match r m)"
proof -
  have "origin_gate allowList (Some ''https://skins.webamp.org.evil.example'') = ALLOW"
    by (simp add: origin_gate_def some_rule_matches_def allowList_def lits_def)
  then show ?thesis
    using origin_gate_unanchored [of allowList "''https://skins.webamp.org.evil.example''"]
    by simp
qed

text \<open>
  C6 as stated fails: no rule matches the whole of
  \<open>https://skins.webamp.org.evil.example\<close>, and the gate allows it.
\<close>

theorem origin_gate_full_match_counterexample:
  "\<not> some_rule_matches_fully allowList ''https://skins.webamp.org.evil.example'' \<and>
   corsOptions_origin (Some ''https://skins.webamp.org.evil.example'') = ALLOW"
  by (simp add: origin_gate_def corsOptions_origin_def some_rule_matches_def
      some_rule_matches_fully_def allowList_def lits_def)


section \<open>The sitemap and the upload limit\<close>

text \<open>
  C5. The sitemap is the static entries \<open>/about\<close>, \<open>/\<close>, \<open>/upload\<close> in that order, then one
  entry \<open>skin/{md5}/{fileName}\<close> for each item of the data layer, in the order the data
  layer returned them; the item \<open>abc\<close>, \<open>foo.wal\<close> gives \<open>skin/abc/foo.wal\<close>.
\<close>

theorem sitemap_urls:
  "getSitemapUrls (Inr items) =
     Inr ([''/about'', ''/'', ''/upload''] @
          map (\<lambda>item. ''skin/'' @ md5 item @ ''/'' @ fileName item) items) \<and>
   getSitemapUrls (Inr [\<lparr>md5 = ''abc'', fileName = ''foo.wal''\<rparr>]) =
     Inr [''/about'', ''/'', ''/upload'', ''skin/abc/foo.wal'']"
  by (simp add: getSitemapUrls_def skinUrl_def)

text \<open>
  C10. The upload limit is 50 MiB, 52428800 bytes, and it is the limit the upload layer
  of the pipeline is built with.
\<close>

theorem upload_limit:
  "fileSize limits = 52428800 \<and> fileSize limits = 50 * 1024 * 1024 \<and>
   FileUpload \<lparr>fileSize = 52428800\<rparr> \<in> set (stack (createApp Sentry eventHandler))"
  by (simp add: limits_def createApp_def)


section \<open>Lemmas on the pipeline\<close>










lemma dispatch_subseq:
  "subseq (map fst (snd (dispatch co eh ls pending req res w))) ls"
  by (induction ls arbitrary: pending req res w)
     (auto simp: case_prod_beta Let_def split: Outcome.splits)

lemma keeps_contextD:
  assumes "keeps_context h" and "h req res w = (out, req', res', w')"
  shows "ctx req' = ctx req \<and> nextRef w \<le> nextRef w'"
proof -
  from assms(1) have "case h req res w of
      (out, req', res', w') \<Rightarrow> ctx req' = ctx req \<and> nextRef w \<le> nextRef w'"
    unfolding keeps_context_def by (elim allE)
  with assms(2) show ?thesis by simp
qed

lemma dispatch_sentry_entry:
  "dispatch co eh (SentryRequestHandler # ls) None req res w =
     (let (fin, tr) = dispatch co eh ls None req res w
      in (fin, (SentryRequestHandler, ctx req, Next) # tr))"
  by (simp add: handles_def run_layer_def)

lemma dispatch_prelude:
  "dispatch co eh (AddUserContext # AttachEventHandler # AttachLogger # ls) None req res w =
     (let r = nextRef w;
          (fin, tr) = dispatch co eh ls None
             (attachLogger (attachEventHandler eh (req\<lparr>ctx := Some r\<rparr>))) res
             (w\<lparr>nextRef := Suc r\<rparr>)
      in (fin, (AddUserContext, ctx req, Next) # (AttachEventHandler, Some r, Next) #
               (AttachLogger, Some r, Next) # tr))"
  by (simp add: handles_def run_layer_def addUserContext_def attachEventHandler_def
      attachLogger_def Let_def split: prod.splits)

lemma dispatch_visits_head:
  "handles l pending req \<Longrightarrow>
   \<exists>out tr. snd (dispatch co eh (l # ls) pending req res w) = (l, ctx req, out) # tr"
  by (auto split: prod.splits Outcome.splits)

lemma run_layer_keeps_ctx:
  assumes "well_behaved co" and "l \<noteq> AddUserContext"
    and "run_layer co eh l pending req res w = (out, req', res', w')"
  shows "ctx req' = ctx req \<and> nextRef w \<le> nextRef w'"
proof (cases l)
  case BodyParserJson
  from assms(1) have "keeps_context (bodyParser_json co)" by (simp add: well_behaved_def)
  moreover from assms(3) BodyParserJson
  have "bodyParser_json co req res w = (out, req', res', w')" by (simp add: run_layer_def)
  ultimately show ?thesis by (rule keeps_contextD)
next
  case (FileUpload lim)
  from assms(1) have "keeps_context (fileUpload co lim)" by (simp add: well_behaved_def)
  moreover from assms(3) FileUpload
  have "fileUpload co lim req res w = (out, req', res', w')" by (simp add: run_layer_def)
  ultimately show ?thesis by (rule keeps_contextD)
next
  case Router
  from assms(1) have "keeps_context (router co)" by (simp add: well_behaved_def)
  moreover from assms(3) Router
  have "router co req res w = (out, req', res', w')" by (simp add: run_layer_def)
  ultimately show ?thesis by (rule keeps_contextD)
qed (use assms(2,3) in \<open>auto simp: run_layer_def attachEventHandler_def attachLogger_def
      cors_def expressSitemapXml_def loadSitemaps_def sentryErrorHandler_def res_send_def
      onError_def Let_def
      split: Decision.splits if_splits sum.splits option.splits prod.splits\<close>)

lemma dispatch_keeps_ctx:
  assumes "well_behaved co" and "AddUserContext \<notin> set ls"
    and "dispatch co eh ls pending req res w = ((req', res', w'), tr)"
  shows "ctx req' = ctx req \<and> nextRef w \<le> nextRef w' \<and> (\<forall>v\<in>set tr. fst (snd v) = ctx req)"
  using assms(2,3)
proof (induction ls arbitrary: pending req res w tr)
  case Nil
  then show ?case by simp
next
  case (Cons x xs)
  from Cons.prems(1) have x: "x \<noteq> AddUserContext" and xs: "AddUserContext \<notin> set xs" by auto
  show ?case
  proof (cases "handles x pending req")
    case False
    with Cons.prems(2) have "dispatch co eh xs pending req res w = ((req', res', w'), tr)" by simp
    from Cons.IH [OF xs this] show ?thesis .
  next
    case True
    obtain out req1 res1 w1 where rl: "run_layer co eh x pending req res w = (out, req1, res1, w1)"
      by (cases "run_layer co eh x pending req res w") auto
    from run_layer_keeps_ctx [OF assms(1) x rl] have k: "ctx req1 = ctx req" "nextRef w \<le> nextRef w1"
      by simp_all
    show ?thesis
    proof (cases out)
      case Next
      obtain fin tr1 where d: "dispatch co eh xs None req1 res1 w1 = (fin, tr1)"
        by (cases "dispatch co eh xs None req1 res1 w1") auto
      with Cons.prems(2) True rl Next have ft: "fin = (req', res', w')" "tr = (x, ctx req, Next) # tr1"
        by simp_all
      with d have "dispatch co eh xs None req1 res1 w1 = ((req', res', w'), tr1)" by simp
      from Cons.IH [OF xs this] k ft show ?thesis by auto
    next
      case (NextErr err)
      obtain fin tr1 where d: "dispatch co eh xs (Some err) req1 res1 w1 = (fin, tr1)"
        by (cases "dispatch co eh xs (Some err) req1 res1 w1") auto
      with Cons.prems(2) True rl NextErr have ft: "fin = (req', res', w')" "tr = (x, ctx req, NextErr err) # tr1"
        by simp_all
      with d have "dispatch co eh xs (Some err) req1 res1 w1 = ((req', res', w'), tr1)" by simp
      from Cons.IH [OF xs this] k ft show ?thesis by auto
    next
      case End
      with Cons.prems(2) True rl have "tr = [(x, ctx req, End)]" "req' = req1" "w' = w1"
        by simp_all
      with k show ?thesis by simp
    next
      case Hang
      with Cons.prems(2) True rl have "tr = [(x, ctx req, Hang)]" "req' = req1" "w' = w1"
        by simp_all
      with k show ?thesis by simp
    qed
  qed
qed

lemma advance_ctx:
  assumes "well_behaved co" and "advance co eh fl w = (fl', w')"
  shows "nextRef w \<le> nextRef w' \<and>
         (ctx (fl_req fl') = ctx (fl_req fl) \<or>
          (ctx (fl_req fl') = Some (nextRef w) \<and> nextRef w < nextRef w'))"
proof (cases "fl_done fl")
  case True
  with assms(2) show ?thesis by (simp add: advance_def)
next
  case nd: False
  show ?thesis
  proof (cases "fl_rest fl")
    case Nil
    with nd assms(2) show ?thesis by (auto simp: advance_def)
  next
    case (Cons l ls)
    show ?thesis
    proof (cases "handles l (fl_pending fl) (fl_req fl)")
      case False
      with nd Cons assms(2) show ?thesis by (auto simp: advance_def)
    next
      case True
      obtain out req1 res1 w1 where rl:
        "run_layer co eh l (fl_pending fl) (fl_req fl) (fl_res fl) w = (out, req1, res1, w1)"
        by (cases "run_layer co eh l (fl_pending fl) (fl_req fl) (fl_res fl) w") auto
      with nd Cons True assms(2) have eq: "fl_req fl' = req1" "w' = w1"
        by (auto simp: advance_def split: Outcome.splits)
      show ?thesis
      proof (cases "l = AddUserContext")
        case True
        with rl have "ctx req1 = Some (nextRef w)" "nextRef w1 = Suc (nextRef w)"
          by (auto simp: run_layer_def addUserContext_def)
        with eq show ?thesis by simp
      next
        case False
        from run_layer_keeps_ctx [OF assms(1) False rl] eq show ?thesis by simp
      qed
    qed
  qed
qed

lemma step_contexts_apart:
  assumes wb: "well_behaved co" and st: "server_step co app sv sv'" and inv: "contexts_apart sv"
  shows "contexts_apart sv'"
  using st
proof cases
  case (arrive m u p q org)
  let ?n = "length (flights sv)"
  have new: "ctx_of sv' ?n = None"
    by (simp add: arrive ctx_of_def arriving_def incoming_def)
  have old: "\<And>i. i < ?n \<Longrightarrow> ctx_of sv' i = ctx_of sv i"
    by (simp add: arrive ctx_of_def nth_append)
  have len: "length (flights sv') = Suc ?n" and w: "world sv' = world sv"
    by (simp_all add: arrive)
  show ?thesis
    unfolding contexts_apart_def len w
  proof (intro allI impI)
    fix i r assume i: "i < Suc ?n" and c: "ctx_of sv' i = Some r"
    with new have i': "i < ?n" by (cases "i = ?n") auto
    with c old have c': "ctx_of sv i = Some r" by simp
    with inv i' have b: "r < nextRef (world sv)"
      and d: "\<forall>j<?n. j \<noteq> i \<longrightarrow> ctx_of sv j \<noteq> Some r"
      unfolding contexts_apart_def by blast+
    have "\<forall>j<Suc ?n. j \<noteq> i \<longrightarrow> ctx_of sv' j \<noteq> Some r"
    proof (intro allI impI)
      fix j assume "j < Suc ?n" "j \<noteq> i"
      then show "ctx_of sv' j \<noteq> Some r"
        using new old d by (cases "j = ?n") auto
    qed
    with b show "r < nextRef (world sv) \<and> (\<forall>j<Suc ?n. j \<noteq> i \<longrightarrow> ctx_of sv' j \<noteq> Some r)"
      by simp
  qed
next
  case (proceed k fl' w')
  let ?n = "length (flights sv)"
  from advance_ctx [OF wb proceed(3)]
  have mono: "nextRef (world sv) \<le> nextRef w'"
    and k: "ctx (fl_req fl') = ctx_of sv k \<or>
            (ctx (fl_req fl') = Some (nextRef (world sv)) \<and> nextRef (world sv) < nextRef w')"
    by (simp_all add: ctx_of_def)
  have at_k: "ctx_of sv' k = ctx (fl_req fl')"
    using proceed(2) by (simp add: proceed(1) ctx_of_def)
  have other: "\<And>i. i \<noteq> k \<Longrightarrow> ctx_of sv' i = ctx_of sv i"
    by (simp add: proceed(1) ctx_of_def)
  have len: "length (flights sv') = ?n" and w: "world sv' = w'"
    by (simp_all add: proceed(1))
  have bound: "\<And>i r. i < ?n \<Longrightarrow> ctx_of sv i = Some r \<Longrightarrow> r < nextRef (world sv)"
    using inv unfolding contexts_apart_def by blast
  have apart: "\<And>i j r. i < ?n \<Longrightarrow> j < ?n \<Longrightarrow> j \<noteq> i \<Longrightarrow> ctx_of sv i = Some r \<Longrightarrow> ctx_of sv j \<noteq> Some r"
    using inv unfolding contexts_apart_def by blast
  show ?thesis
    unfolding contexts_apart_def len w
  proof (intro allI impI conjI)
    fix i r assume i: "i < ?n" and c: "ctx_of sv' i = Some r"
    show "r < nextRef w'"
    proof (cases "i = k")
      case True
      with c at_k k bound [of k r] proceed(2) mono show ?thesis by auto
    next
      case False
      with c other bound [of i r] i mono show ?thesis by auto
    qed
  next
    fix i r j assume i: "i < ?n" and c: "ctx_of sv' i = Some r" and j: "j < ?n" and ji: "j \<noteq> i"
    show "ctx_of sv' j \<noteq> Some r"
    proof (cases "i = k")
      case ik: True
      with ji other have cj: "ctx_of sv' j = ctx_of sv j" by simp
      from k show ?thesis
      proof
        assume "ctx (fl_req fl') = ctx_of sv k"
        with c at_k ik have "ctx_of sv k = Some r" by simp
        from apart [OF proceed(2) j _ this] ji ik cj show ?thesis by simp
      next
        assume "ctx (fl_req fl') = Some (nextRef (world sv)) \<and> nextRef (world sv) < nextRef w'"
        with c at_k ik have r: "r = nextRef (world sv)" by simp
        show ?thesis
        proof
          assume "ctx_of sv' j = Some r"
          with cj bound [OF j] have "r < nextRef (world sv)" by simp
          with r show False by simp
        qed
      qed
    next
      case nik: False
      with c other have ci: "ctx_of sv i = Some r" by simp
      show ?thesis
      proof (cases "j = k")
        case False
        with other have "ctx_of sv' j = ctx_of sv j" by simp
        with apart [OF i j ji ci] show ?thesis by simp
      next
        case jk: True
        from k show ?thesis
        proof
          assume "ctx (fl_req fl') = ctx_of sv k"
          with at_k jk have "ctx_of sv' j = ctx_of sv j" by simp
          with apart [OF i j ji ci] show ?thesis by simp
        next
          assume "ctx (fl_req fl') = Some (nextRef (world sv)) \<and> nextRef (world sv) < nextRef w'"
          with at_k jk have "ctx_of sv' j = Some (nextRef (world sv))" by simp
          with bound [OF i ci] show ?thesis by simp
        qed
      qed
    qed
  qed
qed

lemma reachable_contexts_apart:
  assumes "well_behaved co" and "reachable co app sv"
  shows "contexts_apart sv"
  using assms(2)
proof induction
  case (start sv)
  then show ?case by (simp add: contexts_apart_def)
next
  case (later sv sv')
  from step_contexts_apart [OF assms(1) later(2) later(3)] show ?case .
qed


text \<open>The definitions that a run on concrete data unfolds.\<close>

lemmas run_defs = handle_def createApp_def handles_def run_layer_def addUserContext_def
  attachEventHandler_def attachLogger_def cors_def corsOptions_origin_def origin_gate_def
  some_rule_matches_def allowList_def lits_def expressSitemapXml_def loadSitemaps_def
  getSitemapUrls_def res_send_def sentryErrorHandler_def onError_def sample_collaborators_def
  passing_def sample_world_def incoming_def fresh_response_def limits_def Let_def


lemma handle_shape:
  assumes "stack app = pre @ AddUserContext # AttachEventHandler # AttachLogger # rest"
    and "pre = [] \<or> pre = [SentryRequestHandler]"
  shows "handle co app req w =
     (let r = nextRef w;
          (fin, tr) = dispatch co (subscriber app) rest None
             (attachLogger (attachEventHandler (subscriber app) (req\<lparr>ctx := Some r\<rparr>)))
             fresh_response (w\<lparr>nextRef := Suc r\<rparr>)
      in (fin, map (\<lambda>l. (l, ctx req, Next)) pre @
               (AddUserContext, ctx req, Next) # (AttachEventHandler, Some r, Next) #
               (AttachLogger, Some r, Next) # tr))"
  using assms(2)
proof
  assume "pre = []"
  with assms(1) show ?thesis
    by (simp add: handle_def dispatch_prelude del: dispatch.simps)
next
  assume "pre = [SentryRequestHandler]"
  with assms(1) show ?thesis
    by (simp add: handle_def dispatch_sentry_entry dispatch_prelude Let_def
        split: prod.splits del: dispatch.simps)
qed

lemma dispatch_visits_in_stack:
  assumes "v \<in> set (snd (dispatch co eh ls pending req res w))"
  shows "fst v \<in> set ls"
proof -
  from assms have m: "fst v \<in> set (map fst (snd (dispatch co eh ls pending req res w)))"
    by simp
  obtain y where "y \<in> set ls" "fst v = y"
    by (rule list_emb_set [OF dispatch_subseq m])
  then show ?thesis by simp
qed

lemma handle_after_context:
  assumes wb: "well_behaved co"
  shows "\<exists>pre tr.
     visits (handle co (createApp S eh) req w) =
       map (\<lambda>l. (l, ctx req, Next)) pre @ (AddUserContext, ctx req, Next) # tr \<and>
     (pre = [] \<or> pre = [SentryRequestHandler]) \<and>
     (\<forall>v\<in>set tr. fst v \<noteq> AddUserContext \<and> fst v \<noteq> SentryRequestHandler \<and>
                  fst (snd v) = Some (nextRef w)) \<and>
     ctx (final_request (handle co (createApp S eh) req w)) = Some (nextRef w) \<and>
     nextRef w < nextRef (final_world (handle co (createApp S eh) req w))"
proof -
  let ?app = "createApp S eh"
  let ?pre = "if S then [SentryRequestHandler] else []"
  let ?r = "nextRef w"
  let ?req3 = "attachLogger (attachEventHandler (subscriber ?app) (req\<lparr>ctx := Some ?r\<rparr>))"
  obtain rest where st: "stack ?app =
      ?pre @ AddUserContext # AttachEventHandler # AttachLogger # Cors # rest"
    and nr: "AddUserContext \<notin> set (Cors # rest)"
    and ns: "SentryRequestHandler \<notin> set (Cors # rest)"
    by (cases S) (simp_all add: createApp_def)
  have pre: "?pre = [] \<or> ?pre = [SentryRequestHandler]" by simp
  obtain req' res' w' tr where d:
    "dispatch co (subscriber ?app) (Cors # rest) None ?req3 fresh_response (w\<lparr>nextRef := Suc ?r\<rparr>)
       = ((req', res', w'), tr)"
    by (cases "dispatch co (subscriber ?app) (Cors # rest) None ?req3 fresh_response
          (w\<lparr>nextRef := Suc ?r\<rparr>)") auto
  have c3: "ctx ?req3 = Some ?r"
    by (simp add: attachLogger_def attachEventHandler_def Let_def)
  from dispatch_keeps_ctx [OF wb nr d] c3
  have k: "ctx req' = Some ?r" "Suc ?r \<le> nextRef w'" "\<forall>v\<in>set tr. fst (snd v) = Some ?r"
    by simp_all
  have inst: "\<forall>v\<in>set tr. fst v \<in> set (Cors # rest)"
    using dispatch_visits_in_stack [of _ co "subscriber ?app" "Cors # rest" None ?req3
        fresh_response "w\<lparr>nextRef := Suc ?r\<rparr>"] d by simp
  from handle_shape [OF st pre, of co req w] d
  have h: "handle co ?app req w =
     ((req', res', w'), map (\<lambda>l. (l, ctx req, Next)) ?pre @
        (AddUserContext, ctx req, Next) # (AttachEventHandler, Some ?r, Next) #
        (AttachLogger, Some ?r, Next) # tr)"
    by (simp add: Let_def del: dispatch.simps)
  let ?tr = "(AttachEventHandler, Some ?r, Next) # (AttachLogger, Some ?r, Next) # tr"
  have "visits (handle co ?app req w) =
       map (\<lambda>l. (l, ctx req, Next)) ?pre @ (AddUserContext, ctx req, Next) # ?tr"
    by (simp add: h visits_def)
  moreover have "\<forall>v\<in>set ?tr. fst v \<noteq> AddUserContext \<and> fst v \<noteq> SentryRequestHandler \<and>
                  fst (snd v) = Some ?r"
    using k(3) inst nr ns by auto
  moreover have "ctx (final_request (handle co ?app req w)) = Some ?r"
    by (simp add: h final_request_def k(1))
  moreover have "?r < nextRef (final_world (handle co ?app req w))"
    using k(2) by (simp add: h final_world_def)
  ultimately show ?thesis using pre by blast
qed

lemma handle_begins:
  "prefix ((if S then [SentryRequestHandler] else []) @
           [AddUserContext, AttachEventHandler, AttachLogger, Cors])
          (map fst (visits (handle co (createApp S eh) req w)))"
proof -
  let ?app = "createApp S eh"
  let ?pre = "if S then [SentryRequestHandler] else []"
  let ?r = "nextRef w"
  let ?req3 = "attachLogger (attachEventHandler (subscriber ?app) (req\<lparr>ctx := Some ?r\<rparr>))"
  obtain rest where st: "stack ?app =
      ?pre @ AddUserContext # AttachEventHandler # AttachLogger # Cors # rest"
    by (cases S) (simp_all add: createApp_def)
  have pre: "?pre = [] \<or> ?pre = [SentryRequestHandler]" by simp
  have "handles Cors None ?req3" by (simp add: handles_def)
  from dispatch_visits_head [OF this, of co "subscriber ?app" rest fresh_response
      "w\<lparr>nextRef := Suc ?r\<rparr>"]
  obtain out tr where v: "snd (dispatch co (subscriber ?app) (Cors # rest) None ?req3
      fresh_response (w\<lparr>nextRef := Suc ?r\<rparr>)) = (Cors, ctx ?req3, out) # tr"
    by blast
  from handle_shape [OF st pre, of co req w] v
  have "map fst (visits (handle co ?app req w)) =
      (?pre @ [AddUserContext, AttachEventHandler, AttachLogger, Cors]) @ map fst tr"
    by (simp add: visits_def Let_def case_prod_beta comp_def del: dispatch.simps)
  then show ?thesis by (simp only: prefixI)
qed


section \<open>The error boundary\<close>








section \<open>The notifier and the logger\<close>

lemma prepared_createApp:
  "prepared co (createApp S eh) req w =
     (attachLogger (attachEventHandler eh (req\<lparr>ctx := Some (nextRef w)\<rparr>)),
      w\<lparr>nextRef := Suc (nextRef w)\<rparr>)"
  by (simp add: prepared_def ahead_of_gate_def createApp_def handles_def run_layer_def
      addUserContext_def final_request_def final_world_def Let_def)

lemma handle_prepared:
  "fst (handle co (createApp S eh) req w) =
     fst (dispatch co (subscriber (createApp S eh)) (from_gate_on (createApp S eh)) None
            (fst (prepared co (createApp S eh) req w)) fresh_response
            (snd (prepared co (createApp S eh) req w)))"
proof -
  let ?app = "createApp S eh"
  let ?pre = "if S then [SentryRequestHandler] else []"
  have st: "stack ?app =
      ?pre @ AddUserContext # AttachEventHandler # AttachLogger # from_gate_on ?app"
    by (simp add: createApp_def from_gate_on_def)
  have pre: "?pre = [] \<or> ?pre = [SentryRequestHandler]" by simp
  have sub: "subscriber ?app = eh" by (simp add: createApp_def)
  from handle_shape [OF st pre, of co req w] show ?thesis
    by (simp add: prepared_createApp sub Let_def case_prod_beta del: dispatch.simps)
qed

text \<open>
  C3. In the application that \<open>createApp\<close> builds with a subscriber \<open>h\<close>, the origin gate
  and every layer after it, the router among them, work on the request as the first
  layers have prepared it. On that request \<open>req.ctx\<close> is the instance that
  \<open>new UserContext()\<close> made for it, and a call \<open>req.notify(action)\<close> is one call of \<open>h\<close>, with
  the action as it is and that instance: its result and its effect are those of
  \<open>h action req.ctx\<close>. The same holds of any request that carries the closure, with the
  \<open>req.ctx\<close> it has at the time of the call.
\<close>

theorem notify_calls_subscriber:
  "fst (handle co (createApp S (Some h)) req w) =
     fst (dispatch co (subscriber (createApp S (Some h))) (from_gate_on (createApp S (Some h)))
            None (fst (prepared co (createApp S (Some h)) req w)) fresh_response
            (snd (prepared co (createApp S (Some h)) req w))) \<and>
   ctx (fst (prepared co (createApp S (Some h)) req w)) = Some (nextRef w) \<and>
   req_notify (fst (prepared co (createApp S (Some h)) req w)) action w' =
     (fst (h action (Some (nextRef w)) (outside w')),
      w'\<lparr>outside := snd (h action (Some (nextRef w)) (outside w'))\<rparr>) \<and>
   (notify req' = Some (Some h) \<longrightarrow>
      req_notify req' action w' =
        (fst (h action (ctx req') (outside w')),
         w'\<lparr>outside := snd (h action (ctx req') (outside w'))\<rparr>))"
proof -
  have "req_notify (fst (prepared co (createApp S (Some h)) req w)) action w' =
     (fst (h action (Some (nextRef w)) (outside w')),
      w'\<lparr>outside := snd (h action (Some (nextRef w)) (outside w'))\<rparr>)"
    by (simp add: prepared_createApp req_notify_def attachEventHandler_def attachLogger_def
        Let_def case_prod_beta)
  moreover have "ctx (fst (prepared co (createApp S (Some h)) req w)) = Some (nextRef w)"
    by (simp add: prepared_createApp attachEventHandler_def attachLogger_def Let_def)
  moreover have "notify req' = Some (Some h) \<longrightarrow>
      req_notify req' action w' =
        (fst (h action (ctx req') (outside w')),
         w'\<lparr>outside := snd (h action (ctx req') (outside w'))\<rparr>)"
    by (simp add: req_notify_def case_prod_beta)
  ultimately show ?thesis using handle_prepared [of co S "Some h" req w] by blast
qed

text \<open>
  A subscriber that records its calls, and a route handler that calls \<open>req.notify\<close> once:
  after the request the record has one entry, the action and the context of the request.
\<close>

theorem notify_calls_subscriber_witness:
  "notify (fst (prepared (sample_collaborators passing (Inr [])) (createApp True (Some record_event))
      (incoming ''POST'' ''/skins'' 0 1 None) (sample_world []))) = Some (Some record_event) \<and>
   req_notify (fst (prepared (sample_collaborators passing (Inr []))
      (createApp True (Some record_event)) (incoming ''POST'' ''/skins'' 0 1 None) (sample_world [])))
      (SKIN_UPLOADED ''abc'') (sample_world [(REVIEW_REQUESTED ''abc'', Some 4)]) =
     (None, sample_world [(REVIEW_REQUESTED ''abc'', Some 4), (SKIN_UPLOADED ''abc'', Some 4)]) \<and>
   outside (final_world (handle (sample_collaborators (notifying (SKIN_UPLOADED ''abc'')) (Inr []))
      (createApp True (Some record_event)) (incoming ''POST'' ''/skins'' 0 1 None)
      (sample_world []))) = [(SKIN_UPLOADED ''abc'', Some 4)] \<and>
   sent (response (handle (sample_collaborators (notifying (SKIN_UPLOADED ''abc'')) (Inr []))
      (createApp True (Some record_event)) (incoming ''POST'' ''/skins'' 0 1 None)
      (sample_world []))) = Some (200, OtherBody ''ok'')"
proof -
  let ?req = "fst (prepared (sample_collaborators passing (Inr []))
      (createApp True (Some record_event)) (incoming ''POST'' ''/skins'' 0 1 None) (sample_world []))"
  let ?run = "handle (sample_collaborators (notifying (SKIN_UPLOADED ''abc'')) (Inr []))
      (createApp True (Some record_event)) (incoming ''POST'' ''/skins'' 0 1 None)
      (sample_world [])"
  have n: "notify ?req = Some (Some record_event)"
    by (simp add: prepared_createApp attachEventHandler_def attachLogger_def Let_def)
  have w: "nextRef (sample_world ([] :: (ApiAction \<times> ref option) list)) = 4"
    by (simp add: sample_world_def)
  from n w notify_calls_subscriber [of "sample_collaborators passing (Inr [])" True record_event
      "incoming ''POST'' ''/skins'' 0 1 None" "sample_world []" "SKIN_UPLOADED ''abc''"
      "sample_world [(REVIEW_REQUESTED ''abc'', Some 4)]" ?req]
  have c: "req_notify ?req (SKIN_UPLOADED ''abc'')
      (sample_world [(REVIEW_REQUESTED ''abc'', Some 4)]) =
     (None, sample_world [(REVIEW_REQUESTED ''abc'', Some 4), (SKIN_UPLOADED ''abc'', Some 4)])"
    by (simp add: record_event_def sample_world_def)
  have r: "outside (final_world ?run) = [(SKIN_UPLOADED ''abc'', Some 4)]"
    "sent (response ?run) = Some (200, OtherBody ''ok'')"
    by (simp_all add: run_defs notifying_def req_notify_def record_event_def response_def
        final_world_def)
  from n c r show ?thesis by blast
qed

text \<open>
  C4. In the application that \<open>createApp\<close> builds without a subscriber, the origin gate
  and every layer after it work on the request as the first layers have prepared it,
  and on that request a call \<open>req.notify(action)\<close> throws nothing and changes nothing, for
  every action. The same holds of any request that carries the closure.
\<close>

theorem notify_without_subscriber:
  "fst (handle (co :: 's Collaborators) (createApp S None) req w) =
     fst (dispatch co (subscriber (createApp S None))
            (from_gate_on (createApp S None :: 's App)) None
            (fst (prepared co (createApp S None) req w)) fresh_response
            (snd (prepared co (createApp S None) req w))) \<and>
   req_notify (fst (prepared co (createApp S None) req w)) action w' = (None, w') \<and>
   (notify req' = Some None \<longrightarrow> req_notify req' action w' = (None, w'))"
proof -
  have "req_notify (fst (prepared co (createApp S None) req w)) action w' = (None, w')"
    by (simp add: prepared_createApp req_notify_def attachEventHandler_def attachLogger_def
        Let_def)
  moreover have "notify req' = Some None \<longrightarrow> req_notify req' action w' = (None, w')"
    by (simp add: req_notify_def)
  ultimately show ?thesis using handle_prepared [of co S None req w] by blast
qed

text \<open>A route handler that calls \<open>req.notify\<close>: it answers, and the world is as it was.\<close>

theorem notify_without_subscriber_witness:
  "notify (fst (prepared (sample_collaborators passing (Inr [])) (createApp False None)
      (incoming ''POST'' ''/skins'' 0 1 None) (sample_world ()))) = Some None \<and>
   req_notify (fst (prepared (sample_collaborators passing (Inr [])) (createApp False None)
      (incoming ''POST'' ''/skins'' 0 1 None) (sample_world ())))
      (ERROR_PROCESSING_UPLOAD ''abc'' ''not a skin'') (sample_world ()) =
     (None, sample_world ()) \<and>
   outside (final_world (handle
      (sample_collaborators (notifying (ERROR_PROCESSING_UPLOAD ''abc'' ''not a skin'')) (Inr []))
      (createApp False None) (incoming ''POST'' ''/skins'' 0 1 None) (sample_world ()))) = () \<and>
   sent (response (handle
      (sample_collaborators (notifying (ERROR_PROCESSING_UPLOAD ''abc'' ''not a skin'')) (Inr []))
      (createApp False None) (incoming ''POST'' ''/skins'' 0 1 None) (sample_world ()))) =
     Some (200, OtherBody ''ok'')"
proof -
  let ?req = "fst (prepared (sample_collaborators passing (Inr [])) (createApp False None)
      (incoming ''POST'' ''/skins'' 0 1 None) (sample_world ()))"
  let ?run = "handle
      (sample_collaborators (notifying (ERROR_PROCESSING_UPLOAD ''abc'' ''not a skin'')) (Inr []))
      (createApp False None) (incoming ''POST'' ''/skins'' 0 1 None) (sample_world ())"
  have n: "notify ?req = Some None"
    by (simp add: prepared_createApp attachEventHandler_def attachLogger_def Let_def)
  from n notify_without_subscriber [of "sample_collaborators passing (Inr [])" False
      "incoming ''POST'' ''/skins'' 0 1 None" "sample_world ()"
      "ERROR_PROCESSING_UPLOAD ''abc'' ''not a skin''" "sample_world ()" ?req]
  have c: "req_notify ?req (ERROR_PROCESSING_UPLOAD ''abc'' ''not a skin'') (sample_world ()) =
     (None, sample_world ())"
    by blast
  have r: "sent (response ?run) = Some (200, OtherBody ''ok'')"
    by (simp add: run_defs notifying_def req_notify_def response_def)
  from n c r show ?thesis by simp
qed

text \<open>
  C7, as the code has it. The logger layer builds one metadata object for the request,
  from the URL, the \<open>params\<close> and the \<open>query\<close> the request has when the layer runs, and
  both closures hold it. Every call of \<open>req.log\<close> emits the message and that object at
  level info, every call of \<open>req.logError\<close> at level error, whatever the request has
  become by the time of the call.
\<close>

theorem logger_context_built_once:
  "log (attachLogger req) = Some (metadata_now req) \<and>
   logError (attachLogger req) = Some (metadata_now req) \<and>
   (log req' = Some context \<longrightarrow>
      req_log req' msg w = (None, w\<lparr>console := console w @ [(Info, msg, context)]\<rparr>)) \<and>
   (logError req' = Some context \<longrightarrow>
      req_logError req' msg w = (None, w\<lparr>console := console w @ [(Err, msg, context)]\<rparr>)) \<and>
   req_log ((attachLogger req)\<lparr>url := u, params := p, query := q\<rparr>) msg w =
     (None, w\<lparr>console := console w @ [(Info, msg, metadata_now req)]\<rparr>) \<and>
   req_logError ((attachLogger req)\<lparr>url := u, params := p, query := q\<rparr>) msg w =
     (None, w\<lparr>console := console w @ [(Err, msg, metadata_now req)]\<rparr>)"
  by (simp add: req_log_def req_logError_def attachLogger_def metadata_now_def Let_def)

theorem logger_context_built_once_witness:
  "log (attachLogger (incoming ''GET'' ''/a'' 0 1 None :: unit Request)) =
     Some (LogContext ''/a'' 0 1) \<and>
   req_log (attachLogger (incoming ''GET'' ''/a'' 0 1 None)) ''hello'' (sample_world ()) =
     (None, (sample_world ())\<lparr>console := [(Info, ''hello'', LogContext ''/a'' 0 1)]\<rparr>) \<and>
   req_logError (attachLogger (incoming ''GET'' ''/a'' 0 1 None)) ''oh no'' (sample_world ()) =
     (None, (sample_world ())\<lparr>console := [(Err, ''oh no'', LogContext ''/a'' 0 1)]\<rparr>)"
proof -
  have l: "log (attachLogger (incoming ''GET'' ''/a'' 0 1 None :: unit Request)) =
     Some (LogContext ''/a'' 0 1)"
    and e: "logError (attachLogger (incoming ''GET'' ''/a'' 0 1 None :: unit Request)) =
     Some (LogContext ''/a'' 0 1)"
    by (simp_all add: attachLogger_def incoming_def Let_def)
  from l e
    logger_context_built_once [of _ "attachLogger (incoming ''GET'' ''/a'' 0 1 None)"
      "LogContext ''/a'' 0 1" "''hello''" "sample_world ()"]
    logger_context_built_once [of _ "attachLogger (incoming ''GET'' ''/a'' 0 1 None)"
      "LogContext ''/a'' 0 1" "''oh no''" "sample_world ()"]
  show ?thesis by (simp add: sample_world_def)
qed

text \<open>
  C7 as stated fails: when the URL of the request has changed after the logger layer,
  a call of \<open>req.log\<close> emits the URL the layer saw, not the URL at the time of the call.
\<close>

theorem logger_call_time_counterexample:
  "console (snd (req_log ((attachLogger (incoming ''GET'' ''/a'' 0 1 None))\<lparr>url := ''/b''\<rparr>)
      ''hello'' (sample_world ()))) = [(Info, ''hello'', LogContext ''/a'' 0 1)] \<and>
   metadata_now ((attachLogger (incoming ''GET'' ''/a'' 0 1 None :: unit Request))\<lparr>url := ''/b''\<rparr>) =
     LogContext ''/b'' 0 1"
  by (simp add: req_log_def attachLogger_def metadata_now_def incoming_def sample_world_def
      Let_def)

section \<open>The order of the pipeline\<close>

text \<open>
  C9. \<open>createApp\<close> installs the layers in one fixed order: the layer that adds the
  context before the layer that attaches the notifier and the layer that attaches the
  logger, and \<open>onError\<close> last, after the router and after Sentry's error handler when
  there is one. Every request goes through the layers in that order, none twice: the
  layers that ran are a subsequence of the stack, and they begin with Sentry's request
  handler if there is one, then the context, the notifier, the logger and the origin
  gate.
\<close>

theorem pipeline_order:
  "stack (createApp True eh) =
     [SentryRequestHandler, AddUserContext, AttachEventHandler, AttachLogger, Cors, OptionsCors,
      BodyParserJson, FileUpload limits, ExpressSitemapXml ''https://skins.webamp.org'', Router,
      SentryErrorHandler, OnError] \<and>
   stack (createApp False eh) =
     [AddUserContext, AttachEventHandler, AttachLogger, Cors, OptionsCors,
      BodyParserJson, FileUpload limits, ExpressSitemapXml ''https://skins.webamp.org'', Router,
      OnError] \<and>
   before AddUserContext AttachEventHandler (stack (createApp S eh)) \<and>
   before AddUserContext AttachLogger (stack (createApp S eh)) \<and>
   before Router OnError (stack (createApp S eh)) \<and>
   (S \<longrightarrow> before SentryRequestHandler AddUserContext (stack (createApp S eh)) \<and>
          before Router SentryErrorHandler (stack (createApp S eh)) \<and>
          before SentryErrorHandler OnError (stack (createApp S eh))) \<and>
   last (stack (createApp S eh)) = OnError \<and>
   distinct (stack (createApp S eh)) \<and>
   subseq (map fst (visits (handle co (createApp S eh) req w))) (stack (createApp S eh)) \<and>
   prefix ((if S then [SentryRequestHandler] else []) @
           [AddUserContext, AttachEventHandler, AttachLogger, Cors])
          (map fst (visits (handle co (createApp S eh) req w)))"
proof -
  have order: "stack (createApp True eh) =
     [SentryRequestHandler, AddUserContext, AttachEventHandler, AttachLogger, Cors, OptionsCors,
      BodyParserJson, FileUpload limits, ExpressSitemapXml ''https://skins.webamp.org'', Router,
      SentryErrorHandler, OnError]"
    "stack (createApp False eh) =
     [AddUserContext, AttachEventHandler, AttachLogger, Cors, OptionsCors,
      BodyParserJson, FileUpload limits, ExpressSitemapXml ''https://skins.webamp.org'', Router,
      OnError]"
    by (simp_all add: createApp_def)
  have places: "before AddUserContext AttachEventHandler (stack (createApp S eh))"
    "before AddUserContext AttachLogger (stack (createApp S eh))"
    "before Router OnError (stack (createApp S eh))"
    "last (stack (createApp S eh)) = OnError"
    "distinct (stack (createApp S eh))"
    by (simp_all add: createApp_def before_def)
  have hooks: "S \<longrightarrow> before SentryRequestHandler AddUserContext (stack (createApp S eh)) \<and>
          before Router SentryErrorHandler (stack (createApp S eh)) \<and>
          before SentryErrorHandler OnError (stack (createApp S eh))"
    by (simp add: createApp_def before_def)
  have sub: "subseq (map fst (visits (handle co (createApp S eh) req w))) (stack (createApp S eh))"
    unfolding visits_def handle_def by (rule dispatch_subseq)
  from order places hooks sub handle_begins [of S co eh req w] show ?thesis by blast
qed

theorem pipeline_order_witness:
  "before SentryRequestHandler AddUserContext (stack (createApp True None :: unit App)) \<and>
   before Router SentryErrorHandler (stack (createApp True None :: unit App)) \<and>
   before SentryErrorHandler OnError (stack (createApp True None :: unit App)) \<and>
   map fst (visits (handle (sample_collaborators (throwing (Error ''boom'')) (Inr []))
       (createApp True None) (incoming ''GET'' ''/skins'' 0 1 None) (sample_world ()))) =
     [SentryRequestHandler, AddUserContext, AttachEventHandler, AttachLogger, Cors,
      BodyParserJson, FileUpload limits, ExpressSitemapXml ''https://skins.webamp.org'', Router,
      SentryErrorHandler, OnError] \<and>
   subseq (map fst (visits (handle (sample_collaborators (throwing (Error ''boom'')) (Inr []))
       (createApp True None) (incoming ''GET'' ''/skins'' 0 1 None) (sample_world ()))))
     (stack (createApp True None :: unit App))"
proof -
  have "map fst (visits (handle (sample_collaborators (throwing (Error ''boom'')) (Inr []))
       (createApp True None) (incoming ''GET'' ''/skins'' 0 1 None) (sample_world ()))) =
     [SentryRequestHandler, AddUserContext, AttachEventHandler, AttachLogger, Cors,
      BodyParserJson, FileUpload limits, ExpressSitemapXml ''https://skins.webamp.org'', Router,
      SentryErrorHandler, OnError]"
    by (simp add: run_defs throwing_def visits_def)
  with pipeline_order [of None True "sample_collaborators (throwing (Error ''boom'')) (Inr [])"
      "incoming ''GET'' ''/skins'' 0 1 None" "sample_world ()"]
  show ?thesis by blast
qed


section \<open>One context for each request\<close>

lemma well_behaved_sample: "well_behaved (sample_collaborators passing skins)"
  by (simp add: well_behaved_def keeps_context_def sample_collaborators_def passing_def)

lemma reachable_two_in_flight:
  "reachable (sample_collaborators passing (Inr [])) (createApp False None) two_in_flight"
proof -
  let ?co = "sample_collaborators passing (Inr []) :: unit Collaborators"
  let ?app = "createApp False None :: unit App"
  let ?sv0 = "\<lparr>world = sample_world (), flights = []\<rparr> :: unit Server"
  let ?sv1 = "?sv0\<lparr>flights := flights ?sv0 @ [arriving ?app (incoming ''GET'' ''/a'' 0 1 None)]\<rparr>"
  let ?sv2 = "?sv1\<lparr>flights := flights ?sv1 @ [arriving ?app (incoming ''GET'' ''/b'' 2 3 None)]\<rparr>"
  let ?a3 = "advance ?co (subscriber ?app) (flights ?sv2 ! 1) (world ?sv2)"
  let ?sv3 = "\<lparr>world = snd ?a3, flights = (flights ?sv2)[1 := fst ?a3]\<rparr>"
  let ?a4 = "advance ?co (subscriber ?app) (flights ?sv3 ! 0) (world ?sv3)"
  let ?sv4 = "\<lparr>world = snd ?a4, flights = (flights ?sv3)[0 := fst ?a4]\<rparr>"
  have r0: "reachable ?co ?app ?sv0" by (rule reachable.start) simp
  have r1: "reachable ?co ?app ?sv1" by (rule reachable.later [OF r0 server_step.arrive])
  have r2: "reachable ?co ?app ?sv2" by (rule reachable.later [OF r1 server_step.arrive])
  have "server_step ?co ?app ?sv2 ?sv3" by (rule server_step.proceed) simp_all
  with r2 have r3: "reachable ?co ?app ?sv3" by (rule reachable.later)
  have "server_step ?co ?app ?sv3 ?sv4" by (rule server_step.proceed) simp_all
  with r3 have r4: "reachable ?co ?app ?sv4" by (rule reachable.later)
  have "?sv4 = two_in_flight"
    by (simp add: two_in_flight_def advance_def arriving_def run_defs)
  with r4 show ?thesis by simp
qed

text \<open>
  C8. With collaborators that leave \<open>req.ctx\<close> alone, every request goes exactly once
  through the layer that creates its context; every layer after that one (the notifier,
  the logger and whatever runs downstream) finds that same instance in \<open>req.ctx\<close>, and
  so does whoever holds the request at the end. The instance is new: the object store
  has moved past it. And whatever the interleaving of the requests in flight, no two of
  them hold the same instance.
\<close>

theorem request_context_unique:
  assumes "well_behaved co"
  shows "length (filter (\<lambda>v. fst v = AddUserContext)
           (visits (handle co (createApp S eh) req w))) = 1 \<and>
     (\<forall>v\<in>set (visits (handle co (createApp S eh) req w)).
        fst v \<noteq> SentryRequestHandler \<and> fst v \<noteq> AddUserContext \<longrightarrow>
        fst (snd v) = Some (nextRef w)) \<and>
     ctx (final_request (handle co (createApp S eh) req w)) = Some (nextRef w) \<and>
     nextRef w < nextRef (final_world (handle co (createApp S eh) req w)) \<and>
     (reachable co (createApp S eh) sv \<longrightarrow>
        (\<forall>i<length (flights sv). \<forall>j<length (flights sv).
           i \<noteq> j \<and> ctx_of sv i \<noteq> None \<longrightarrow> ctx_of sv i \<noteq> ctx_of sv j))"
proof -
  let ?run = "handle co (createApp S eh) req w"
  from handle_after_context [OF assms, of S eh req w]
  obtain pre tr where v: "visits ?run =
       map (\<lambda>l. (l, ctx req, Next)) pre @ (AddUserContext, ctx req, Next) # tr"
    and pre: "pre = [] \<or> pre = [SentryRequestHandler]"
    and tr: "\<forall>v\<in>set tr. fst v \<noteq> AddUserContext \<and> fst v \<noteq> SentryRequestHandler \<and>
                  fst (snd v) = Some (nextRef w)"
    and fin: "ctx (final_request ?run) = Some (nextRef w)"
      "nextRef w < nextRef (final_world ?run)"
    by blast
  from tr have none: "filter (\<lambda>v. fst v = AddUserContext) tr = []"
    by (simp add: filter_empty_conv)
  from pre have one: "length (filter (\<lambda>v. fst v = AddUserContext) (visits ?run)) = 1"
    by (auto simp: v none)
  from pre tr have seen: "\<forall>v\<in>set (visits ?run).
        fst v \<noteq> SentryRequestHandler \<and> fst v \<noteq> AddUserContext \<longrightarrow>
        fst (snd v) = Some (nextRef w)"
    by (auto simp: v)
  have apart: "reachable co (createApp S eh) sv \<longrightarrow>
        (\<forall>i<length (flights sv). \<forall>j<length (flights sv).
           i \<noteq> j \<and> ctx_of sv i \<noteq> None \<longrightarrow> ctx_of sv i \<noteq> ctx_of sv j)"
  proof (intro impI allI)
    fix i j
    assume r: "reachable co (createApp S eh) sv"
      and i: "i < length (flights sv)" and j: "j < length (flights sv)"
      and ij: "i \<noteq> j \<and> ctx_of sv i \<noteq> None"
    from ij obtain a where a: "ctx_of sv i = Some a" by auto
    from reachable_contexts_apart [OF assms r] i a j ij
    have "ctx_of sv j \<noteq> Some a" unfolding contexts_apart_def by blast
    with a show "ctx_of sv i \<noteq> ctx_of sv j" by simp
  qed
  from one seen fin apart show ?thesis by blast
qed

theorem request_context_unique_witness:
  "well_behaved (sample_collaborators passing (Inr []) :: unit Collaborators) \<and>
   reachable (sample_collaborators passing (Inr [])) (createApp False None) two_in_flight \<and>
   ctx_of two_in_flight 0 = Some 5 \<and>
   ctx_of two_in_flight 1 = Some 4 \<and>
   ctx_of two_in_flight 0 \<noteq> ctx_of two_in_flight 1 \<and>
   ctx (final_request (handle (sample_collaborators passing (Inr [])) (createApp False None)
          (incoming ''GET'' ''/a'' 0 1 None) (sample_world ()))) = Some 4 \<and>
   length (filter (\<lambda>v. fst v = AddUserContext)
     (visits (handle (sample_collaborators passing (Inr [])) (createApp False None)
          (incoming ''GET'' ''/a'' 0 1 None) (sample_world ())))) = 1"
proof -
  have c: "ctx_of two_in_flight 0 = Some 5" "ctx_of two_in_flight 1 = Some 4"
    "length (flights two_in_flight) = 2"
    by (simp_all add: ctx_of_def two_in_flight_def)
  have w: "nextRef (sample_world ()) = 4" by (simp add: sample_world_def)
  from request_context_unique [OF well_behaved_sample, of "Inr []" False None
      "incoming ''GET'' ''/a'' 0 1 None" "sample_world ()" two_in_flight]
    reachable_two_in_flight well_behaved_sample [of "Inr []"] c w
  show ?thesis by simp
qed

end
